theory Spec2Isabelle
  imports Complex_Main
begin

section \<open>Errors\<close>

text \<open>
  The Python exceptions the modelled code can raise.  The repository defines no exception
  class of its own; every failure comes from a library call.
  \<^item> \<open>ValueError\<close>: NumPy (\<open>Generator.choice\<close>, \<open>Generator.integers\<close>, \<open>np.vdot\<close>,
    \<open>np.argmin\<close>).
  \<^item> \<open>IndexError\<close>: NumPy indexing out of range.
  \<^item> \<open>AttributeError\<close>: attribute access on \<open>None\<close> (no feature-map builder given).
  \<^item> \<open>UnboundParameter\<close>: Qiskit's statevector simulation of a gate whose angle still holds
    a free parameter (the cast of the parameter expression to a float fails).
\<close>

datatype error = ValueError | IndexError | AttributeError | UnboundParameter

text \<open>A list comprehension whose body may raise: the first exception leaves the comprehension.\<close>

fun map_result :: "('a \<Rightarrow> error + 'b) \<Rightarrow> 'a list \<Rightarrow> error + 'b list" where
  "map_result f [] = Inr []"
| "map_result f (x # xs) =
     (case f x of
        Inl e \<Rightarrow> Inl e
      | Inr y \<Rightarrow> (case map_result f xs of Inl e \<Rightarrow> Inl e | Inr ys \<Rightarrow> Inr (y # ys)))"

section \<open>Feature maps (\<open>app/feature_map.py\<close>)\<close>

subsection \<open>Parameterised circuits\<close>

text \<open>
  A Qiskit parameter expression over the elements \<open>x[i]\<close> of a parameter vector, with the
  arithmetic the feature maps use.  \<open>Par i\<close> is the free parameter \<open>x[i]\<close>.
\<close>

datatype pexpr =
    Par nat
  | Const real
  | Mul pexpr pexpr
  | Sub pexpr pexpr
  | Div pexpr pexpr

text \<open>
  The gates of the two feature maps: \<open>ry\<close>, \<open>rz\<close> (angle encoding) and \<open>h\<close>, \<open>p\<close>, \<open>cx\<close>
  (\<open>ZZFeatureMap\<close>).  The last argument is the target qubit; \<open>CX c t\<close> has control \<open>c\<close>.
\<close>

datatype gate =
    RY pexpr nat
  | RZ pexpr nat
  | H nat
  | P pexpr nat
  | CX nat nat

record circuit =
  num_qubits :: nat
  data :: "gate list"

fun pexpr_params :: "pexpr \<Rightarrow> nat list" where
  "pexpr_params (Par i) = [i]"
| "pexpr_params (Const v) = []"
| "pexpr_params (Mul a b) = pexpr_params a @ pexpr_params b"
| "pexpr_params (Sub a b) = pexpr_params a @ pexpr_params b"
| "pexpr_params (Div a b) = pexpr_params a @ pexpr_params b"

fun gate_params :: "gate \<Rightarrow> nat list" where
  "gate_params (RY e t) = pexpr_params e"
| "gate_params (RZ e t) = pexpr_params e"
| "gate_params (H t) = []"
| "gate_params (P e t) = pexpr_params e"
| "gate_params (CX c t) = []"

text \<open>
  \<open>QuantumCircuit.parameters\<close>: the free parameters of the circuit, each once, the elements
  of a parameter vector in index order.
\<close>

definition parameters :: "circuit \<Rightarrow> nat list" where
  "parameters fm = sorted_list_of_set (set (concat (map gate_params (data fm))))"

text \<open>\<open>build_angle_encoding_map\<close>: on every qubit \<open>i\<close>, \<open>ry(x[i])\<close> then \<open>rz(x[i] / 2)\<close>.\<close>

definition build_angle_encoding_map :: "nat \<Rightarrow> circuit" where
  "build_angle_encoding_map n =
     \<lparr>num_qubits = n,
      data = concat (map (\<lambda>i. [RY (Par i) i, RZ (Div (Par i) (Const 2)) i]) [0..<n])\<rparr>"

text \<open>
  \<open>build_zz_feature_map\<close> returns Qiskit's \<open>ZZFeatureMap(feature_dimension, reps)\<close>, a library
  circuit.  Its documented layout, with full entanglement: each repetition applies \<open>h\<close> to
  every qubit, \<open>p(2 x[i])\<close> to every qubit \<open>i\<close>, and for every pair \<open>i < j\<close> the block
  \<open>cx(i, j)\<close>, \<open>p(2 (\<pi> - x[i]) (\<pi> - x[j]))\<close> on \<open>j\<close>, \<open>cx(i, j)\<close>.
\<close>

definition zz_pairs :: "nat \<Rightarrow> (nat \<times> nat) list" where
  "zz_pairs n = concat (map (\<lambda>i. map (\<lambda>j. (i, j)) [Suc i..<n]) [0..<n])"

definition zz_block :: "nat \<times> nat \<Rightarrow> gate list" where
  "zz_block ij =
     (case ij of (i, j) \<Rightarrow>
        [CX i j,
         P (Mul (Const 2) (Mul (Sub (Const pi) (Par i)) (Sub (Const pi) (Par j)))) j,
         CX i j])"

definition zz_layer :: "nat \<Rightarrow> gate list" where
  "zz_layer n =
     map H [0..<n] @ map (\<lambda>i. P (Mul (Const 2) (Par i)) i) [0..<n]
       @ concat (map zz_block (zz_pairs n))"

definition build_zz_feature_map :: "nat \<Rightarrow> nat \<Rightarrow> circuit" where
  "build_zz_feature_map n reps =
     \<lparr>num_qubits = n, data = concat (replicate reps (zz_layer n))\<rparr>"

subsection \<open>Binding\<close>

text \<open>
  \<open>bind_parameters\<close> replaces the parameters that the dictionary mentions by their values
  and leaves the others free.
\<close>

fun bind_pexpr :: "(nat \<rightharpoonup> real) \<Rightarrow> pexpr \<Rightarrow> pexpr" where
  "bind_pexpr b (Par i) = (case b i of None \<Rightarrow> Par i | Some v \<Rightarrow> Const v)"
| "bind_pexpr b (Const v) = Const v"
| "bind_pexpr b (Mul x y) = Mul (bind_pexpr b x) (bind_pexpr b y)"
| "bind_pexpr b (Sub x y) = Sub (bind_pexpr b x) (bind_pexpr b y)"
| "bind_pexpr b (Div x y) = Div (bind_pexpr b x) (bind_pexpr b y)"

fun bind_gate :: "(nat \<rightharpoonup> real) \<Rightarrow> gate \<Rightarrow> gate" where
  "bind_gate b (RY e t) = RY (bind_pexpr b e) t"
| "bind_gate b (RZ e t) = RZ (bind_pexpr b e) t"
| "bind_gate b (H t) = H t"
| "bind_gate b (P e t) = P (bind_pexpr b e) t"
| "bind_gate b (CX c t) = CX c t"

definition bind_parameters :: "circuit \<Rightarrow> (nat \<rightharpoonup> real) \<Rightarrow> circuit" where
  "bind_parameters fm b = fm\<lparr>data := map (bind_gate b) (data fm)\<rparr>"

text \<open>The numeric value of a gate angle; there is none while a parameter is free.\<close>

fun to_float :: "pexpr \<Rightarrow> real option" where
  "to_float (Par i) = None"
| "to_float (Const v) = Some v"
| "to_float (Mul x y) =
     (case to_float x of None \<Rightarrow> None
      | Some u \<Rightarrow> (case to_float y of None \<Rightarrow> None | Some v \<Rightarrow> Some (u * v)))"
| "to_float (Sub x y) =
     (case to_float x of None \<Rightarrow> None
      | Some u \<Rightarrow> (case to_float y of None \<Rightarrow> None | Some v \<Rightarrow> Some (u - v)))"
| "to_float (Div x y) =
     (case to_float x of None \<Rightarrow> None
      | Some u \<Rightarrow> (case to_float y of None \<Rightarrow> None | Some v \<Rightarrow> Some (u / v)))"

subsection \<open>Statevector simulation\<close>

text \<open>
  \<open>Statevector.from_instruction\<close> in exact complex arithmetic.  A state of \<open>q\<close> qubits is the
  list of its \<open>2 ^ q\<close> amplitudes; qubit \<open>t\<close> is bit \<open>t\<close> of the index (Qiskit's little-endian
  order), so the first half of the list has the highest qubit at 0.  A one-qubit gate is the
  2 x 2 matrix \<open>((a, b), (c, d))\<close>, written \<open>(a, b, c, d)\<close>.
\<close>

type_synonym mat2 = "complex \<times> complex \<times> complex \<times> complex"

definition ry_matrix :: "real \<Rightarrow> mat2" where
  "ry_matrix \<theta> =
     (complex_of_real (cos (\<theta> / 2)), complex_of_real (- sin (\<theta> / 2)),
      complex_of_real (sin (\<theta> / 2)), complex_of_real (cos (\<theta> / 2)))"

definition rz_matrix :: "real \<Rightarrow> mat2" where
  "rz_matrix \<phi> = (cis (- \<phi> / 2), 0, 0, cis (\<phi> / 2))"

definition h_matrix :: mat2 where
  "h_matrix =
     (complex_of_real (1 / sqrt 2), complex_of_real (1 / sqrt 2),
      complex_of_real (1 / sqrt 2), complex_of_real (- (1 / sqrt 2)))"

definition p_matrix :: "real \<Rightarrow> mat2" where
  "p_matrix l = (1, 0, 0, cis l)"

definition x_matrix :: mat2 where
  "x_matrix = (0, 1, 1, 0)"

fun apply1 :: "mat2 \<Rightarrow> nat \<Rightarrow> nat \<Rightarrow> complex list \<Rightarrow> complex list" where
  "apply1 U t 0 psi = psi"
| "apply1 U t (Suc q) psi =
     (let lo = take (2 ^ q) psi; hi = drop (2 ^ q) psi in
      if t = q then
        (case U of (a, b, c, d) \<Rightarrow>
           map2 (\<lambda>x y. a * x + b * y) lo hi @ map2 (\<lambda>x y. c * x + d * y) lo hi)
      else apply1 U t q lo @ apply1 U t q hi)"

fun apply_cx :: "nat \<Rightarrow> nat \<Rightarrow> nat \<Rightarrow> complex list \<Rightarrow> complex list" where
  "apply_cx c t 0 psi = psi"
| "apply_cx c t (Suc q) psi =
     (let lo = take (2 ^ q) psi; hi = drop (2 ^ q) psi in
      if c = q then lo @ apply1 x_matrix t q hi
      else if t = q then
        map (\<lambda>i. if bit i c then hi ! i else lo ! i) [0..<2 ^ q]
          @ map (\<lambda>i. if bit i c then lo ! i else hi ! i) [0..<2 ^ q]
      else apply_cx c t q lo @ apply_cx c t q hi)"

fun apply_gate :: "nat \<Rightarrow> gate \<Rightarrow> complex list \<Rightarrow> error + complex list" where
  "apply_gate q (RY e t) psi =
     (case to_float e of None \<Rightarrow> Inl UnboundParameter
      | Some v \<Rightarrow> Inr (apply1 (ry_matrix v) t q psi))"
| "apply_gate q (RZ e t) psi =
     (case to_float e of None \<Rightarrow> Inl UnboundParameter
      | Some v \<Rightarrow> Inr (apply1 (rz_matrix v) t q psi))"
| "apply_gate q (H t) psi = Inr (apply1 h_matrix t q psi)"
| "apply_gate q (P e t) psi =
     (case to_float e of None \<Rightarrow> Inl UnboundParameter
      | Some v \<Rightarrow> Inr (apply1 (p_matrix v) t q psi))"
| "apply_gate q (CX c t) psi = Inr (apply_cx c t q psi)"

fun evolve :: "nat \<Rightarrow> gate list \<Rightarrow> complex list \<Rightarrow> error + complex list" where
  "evolve q [] psi = Inr psi"
| "evolve q (g # gs) psi =
     (case apply_gate q g psi of Inl e \<Rightarrow> Inl e | Inr psi' \<Rightarrow> evolve q gs psi')"

definition init_state :: "nat \<Rightarrow> complex list" where
  "init_state q = 1 # replicate (2 ^ q - 1) 0"

definition from_instruction :: "circuit \<Rightarrow> error + complex list" where
  "from_instruction c = evolve (num_qubits c) (data c) (init_state (num_qubits c))"

subsection \<open>\<open>encode_to_statevector\<close>\<close>

text \<open>
  The dictionary is built from \<open>zip(feature_map.parameters, x)\<close>: \<open>zip\<close> stops at the shorter
  of the two, and nothing compares their lengths.
\<close>

definition encode_to_statevector :: "circuit \<Rightarrow> real list \<Rightarrow> error + complex list" where
  "encode_to_statevector feature_map x =
     (let bound_circuit = bind_parameters feature_map (map_of (zip (parameters feature_map) x))
      in from_instruction bound_circuit)"

text \<open>The sum of the squared magnitudes of the amplitudes, \<open>np.sum(np.abs(state) ** 2)\<close>.\<close>

definition norm_sq :: "complex list \<Rightarrow> real" where
  "norm_sq psi = sum_list (map (\<lambda>z. (cmod z)\<^sup>2) psi)"

section \<open>Fidelity and distance (\<open>app/quantum_distance.py\<close>)\<close>

text \<open>
  \<open>np.vdot\<close> conjugates its first argument and raises when the sizes differ.  The
  arithmetic is exact: the arrays hold whatever values they hold (for float arrays, values
  that are unit only up to rounding), and the rounding of each operation is not modelled.
  The code neither normalises the arguments nor clips the results.
\<close>

definition vdot :: "complex list \<Rightarrow> complex list \<Rightarrow> error + complex" where
  "vdot a b =
     (if length a \<noteq> length b then Inl ValueError
      else Inr (sum_list (map2 (\<lambda>x y. cnj x * y) a b)))"

definition fidelity :: "complex list \<Rightarrow> complex list \<Rightarrow> error + real" where
  "fidelity state1 state2 =
     (case vdot state1 state2 of Inl e \<Rightarrow> Inl e | Inr overlap \<Rightarrow> Inr ((cmod overlap)\<^sup>2))"

definition quantum_distance :: "complex list \<Rightarrow> complex list \<Rightarrow> error + real" where
  "quantum_distance state1 state2 =
     (case fidelity state1 state2 of Inl e \<Rightarrow> Inl e | Inr f \<Rightarrow> Inr (1 - f))"

section \<open>NumPy's random generator\<close>

text \<open>
  \<open>np.random.Generator\<close> is library code: its draws are parameters of the model.  \<open>'g\<close> is
  the generator's internal state, which every draw advances.
  \<^item> \<open>seeded s\<close>: the state of \<open>default_rng(s)\<close> for a seed \<open>s \<ge> 0\<close>;
  \<^item> \<open>sample g n k\<close>: the indices \<open>choice(n, size=k, replace=False)\<close> draws, for \<open>k \<le> n\<close>;
  \<^item> \<open>draw g n\<close>: the value \<open>integers(0, n)\<close> draws, for \<open>n > 0\<close>.
\<close>

record 'g generator =
  seeded :: "int \<Rightarrow> 'g"
  sample :: "'g \<Rightarrow> nat \<Rightarrow> nat \<Rightarrow> nat list \<times> 'g"
  draw :: "'g \<Rightarrow> nat \<Rightarrow> nat \<times> 'g"

text \<open>
  What NumPy documents of the draws: \<open>choice\<close> without replacement returns \<open>k\<close> distinct
  indices below \<open>n\<close>, and \<open>integers(0, n)\<close> a value below \<open>n\<close>.
\<close>

definition generator_contract :: "'g generator \<Rightarrow> bool" where
  "generator_contract R \<longleftrightarrow>
     (\<forall>g n k. k \<le> n \<longrightarrow>
        length (fst (sample R g n k)) = k \<and> distinct (fst (sample R g n k))
          \<and> (\<forall>i \<in> set (fst (sample R g n k)). i < n))
     \<and> (\<forall>g n. 0 < n \<longrightarrow> fst (draw R g n) < n)"

text \<open>The argument checks of the three calls; each raises \<open>ValueError\<close>.\<close>

definition default_rng :: "'g generator \<Rightarrow> int \<Rightarrow> error + 'g" where
  "default_rng R random_state =
     (if random_state < 0 then Inl ValueError else Inr (seeded R random_state))"

definition rng_choice :: "'g generator \<Rightarrow> 'g \<Rightarrow> nat \<Rightarrow> int \<Rightarrow> error + (nat list \<times> 'g)" where
  "rng_choice R rng n sz =
     (if sz < 0 \<or> int n < sz \<or> (n = 0 \<and> sz \<noteq> 0) then Inl ValueError
      else Inr (sample R rng n (nat sz)))"

definition rng_integers :: "'g generator \<Rightarrow> 'g \<Rightarrow> nat \<Rightarrow> error + (nat \<times> 'g)" where
  "rng_integers R rng high = (if high = 0 then Inl ValueError else Inr (draw R rng high))"

text \<open>
  A generator to run the model on: its state is a counter, \<open>choice\<close> returns the first \<open>k\<close>
  indices and \<open>integers(0, n)\<close> the counter modulo \<open>n\<close>.
\<close>

definition counter_generator :: "nat generator" where
  "counter_generator =
     \<lparr>seeded = (\<lambda>s. nat s),
      sample = (\<lambda>g n k. ([0..<k], Suc g)),
      draw = (\<lambda>g n. (g mod n, Suc g))\<rparr>"

text \<open>The states a generator can be in after any number of draws from the state \<open>g\<close>.\<close>

inductive_set advanced :: "'g generator \<Rightarrow> 'g \<Rightarrow> 'g set" for R :: "'g generator" and g :: 'g where
  start: "g \<in> advanced R g"
| after_sample: "h \<in> advanced R g \<Longrightarrow> snd (sample R h n k) \<in> advanced R g"
| after_draw: "h \<in> advanced R g \<Longrightarrow> snd (draw R h n) \<in> advanced R g"

section \<open>The clustering loop (\<open>app/quantum_clustering.py\<close>)\<close>

text \<open>
  The dataset \<open>X\<close> is given by its element type (\<open>dt\<close>, below) and the list of its rows,
  of real numbers.  \<open>feature_map_builder\<close> is
  \<open>None\<close> or the circuit the builder returns; with \<open>None\<close> the feature map is \<open>None\<close> and
  the first encoding raises.
\<close>

definition encode_points :: "circuit option \<Rightarrow> real list list \<Rightarrow> error + complex list list" where
  "encode_points feature_map points =
     map_result
       (\<lambda>x. case feature_map of None \<Rightarrow> Inl AttributeError
            | Some fm \<Rightarrow> encode_to_statevector fm x)
       points"

text \<open>\<open>X[indices]\<close> raises when an index is out of range.\<close>

definition take_rows :: "'a list \<Rightarrow> nat list \<Rightarrow> error + 'a list" where
  "take_rows X indices =
     (if \<forall>i \<in> set indices. i < length X then Inr (map (\<lambda>i. X ! i) indices)
      else Inl IndexError)"

definition initialize_centers ::
  "'g generator \<Rightarrow> real list list \<Rightarrow> int \<Rightarrow> 'g \<Rightarrow> error + (real list list \<times> 'g)" where
  "initialize_centers R X n_clusters rng =
     (case rng_choice R rng (length X) n_clusters of
        Inl e \<Rightarrow> Inl e
      | Inr (indices, rng') \<Rightarrow>
          (case take_rows X indices of Inl e \<Rightarrow> Inl e | Inr centers \<Rightarrow> Inr (centers, rng')))"

text \<open>\<open>np.argmin\<close>: the index of the first minimum; it raises on an empty sequence.\<close>

fun first_index :: "'a \<Rightarrow> 'a list \<Rightarrow> nat" where
  "first_index v [] = 0"
| "first_index v (x # xs) = (if x = v then 0 else Suc (first_index v xs))"

definition argmin :: "real list \<Rightarrow> error + nat" where
  "argmin ds = (if ds = [] then Inl ValueError else Inr (first_index (Min (set ds)) ds))"

text \<open>The assignment step: every entry of \<open>labels\<close> is overwritten.\<close>

definition assign_labels :: "complex list list \<Rightarrow> complex list list \<Rightarrow> error + nat list" where
  "assign_labels data_states center_states =
     map_result
       (\<lambda>state. case map_result (\<lambda>c_state. quantum_distance state c_state) center_states of
                  Inl e \<Rightarrow> Inl e
                | Inr distances \<Rightarrow> argmin distances)
       data_states"

text \<open>\<open>X[labels == k]\<close> and the mean of its rows, coordinate by coordinate.\<close>

definition cluster_points :: "real list list \<Rightarrow> nat list \<Rightarrow> nat \<Rightarrow> real list list" where
  "cluster_points X labels k = map fst (filter (\<lambda>(x, l). l = k) (zip X labels))"

definition mean_axis0 :: "real list list \<Rightarrow> real list" where
  "mean_axis0 pts =
     map (\<lambda>j. sum_list (map (\<lambda>p. p ! j) pts) / real (length pts)) [0..<length (hd pts)]"

text \<open>
  The element type of the array \<open>X\<close>.  \<open>centers = X[indices]\<close> and
  \<open>new_centers = np.zeros_like(centers)\<close> inherit it, and the assignment
  \<open>new_centers[k] = ...\<close> converts the assigned values to it: a float array keeps them, an
  integer array truncates them toward zero.  The rows of an integer array hold integers.
\<close>

datatype dtype = Float64 | Int64

definition astype :: "dtype \<Rightarrow> real \<Rightarrow> real" where
  "astype dt v =
     (case dt of
        Float64 \<Rightarrow> v
      | Int64 \<Rightarrow> (if 0 \<le> v then of_int \<lfloor>v\<rfloor> else of_int \<lceil>v\<rceil>))"

text \<open>
  The update step, over the cluster indices \<open>range(n_clusters)\<close>; the generator is the one
  of the whole run, advanced by every resampling.  A resampled row already has the element
  type of \<open>X\<close>; the mean is a float array, converted when it is stored.
\<close>

fun update_centers ::
  "'g generator \<Rightarrow> dtype \<Rightarrow> real list list \<Rightarrow> nat list \<Rightarrow> nat list \<Rightarrow> 'g
     \<Rightarrow> error + (real list list \<times> 'g)" where
  "update_centers R dt X labels [] rng = Inr ([], rng)"
| "update_centers R dt X labels (k # ks) rng =
     (if length (cluster_points X labels k) = 0 then
        (case rng_integers R rng (length X) of
           Inl e \<Rightarrow> Inl e
         | Inr (r, rng') \<Rightarrow>
             if r < length X then
               (case update_centers R dt X labels ks rng' of
                  Inl e \<Rightarrow> Inl e
                | Inr (cs, rng'') \<Rightarrow> Inr (X ! r # cs, rng''))
             else Inl IndexError)
      else
        (case update_centers R dt X labels ks rng of
           Inl e \<Rightarrow> Inl e
         | Inr (cs, rng') \<Rightarrow>
             Inr (map (astype dt) (mean_axis0 (cluster_points X labels k)) # cs, rng')))"

text \<open>\<open>np.allclose(a, b)\<close> with its default tolerances \<open>rtol = 1e-5\<close>, \<open>atol = 1e-8\<close>.\<close>

definition isclose :: "real \<Rightarrow> real \<Rightarrow> bool" where
  "isclose a b \<longleftrightarrow> \<bar>a - b\<bar> \<le> 1 / 10 ^ 8 + 1 / 10 ^ 5 * \<bar>b\<bar>"

definition allclose :: "real list list \<Rightarrow> real list list \<Rightarrow> bool" where
  "allclose a b = list_all2 (list_all2 isclose) a b"

text \<open>The loop \<open>for _ in range(max_iters)\<close>, on the number of iterations left.\<close>

fun kmeans_loop ::
  "'g generator \<Rightarrow> dtype \<Rightarrow> circuit option \<Rightarrow> real list list \<Rightarrow> int \<Rightarrow> nat
     \<Rightarrow> nat list \<Rightarrow> real list list \<Rightarrow> 'g \<Rightarrow> error + (nat list \<times> real list list)" where
  "kmeans_loop R dt feature_map X n_clusters 0 labels centers rng = Inr (labels, centers)"
| "kmeans_loop R dt feature_map X n_clusters (Suc m) labels centers rng =
     (case encode_points feature_map X of
        Inl e \<Rightarrow> Inl e
      | Inr data_states \<Rightarrow>
     (case encode_points feature_map centers of
        Inl e \<Rightarrow> Inl e
      | Inr center_states \<Rightarrow>
     (case assign_labels data_states center_states of
        Inl e \<Rightarrow> Inl e
      | Inr labels' \<Rightarrow>
     (case update_centers R dt X labels' [0..<nat n_clusters] rng of
        Inl e \<Rightarrow> Inl e
      | Inr (new_centers, rng') \<Rightarrow>
          if allclose new_centers centers then Inr (labels', new_centers)
          else kmeans_loop R dt feature_map X n_clusters m labels' new_centers rng'))))"

definition quantum_kmeans ::
  "'g generator \<Rightarrow> dtype \<Rightarrow> real list list \<Rightarrow> int \<Rightarrow> int \<Rightarrow> circuit option \<Rightarrow> int
     \<Rightarrow> error + (nat list \<times> real list list)" where
  "quantum_kmeans R dt X n_clusters max_iters feature_map_builder random_state =
     (case default_rng R random_state of
        Inl e \<Rightarrow> Inl e
      | Inr rng \<Rightarrow>
     (case initialize_centers R X n_clusters rng of
        Inl e \<Rightarrow> Inl e
      | Inr (centers, rng') \<Rightarrow>
          kmeans_loop R dt feature_map_builder X n_clusters (nat max_iters)
            (replicate (length X) 0) centers rng'))"

section \<open>Properties of the encoding\<close>

subsection \<open>The simulation preserves the size and the norm of the state\<close>

lemma norm_sq_append: "norm_sq (xs @ ys) = norm_sq xs + norm_sq ys"
  by (simp add: norm_sq_def)

lemma length_apply1: "length psi = 2 ^ q \<Longrightarrow> length (apply1 U t q psi) = 2 ^ q"
proof (induction q arbitrary: psi)
  case 0
  then show ?case by simp
next
  case (Suc q)
  have lo: "length (take (2 ^ q) psi) = 2 ^ q" and hi: "length (drop (2 ^ q) psi) = 2 ^ q"
    using Suc.prems by simp_all
  show ?case
  proof (cases "t = q")
    case True
    obtain a b c d where U: "U = (a, b, c, d)" by (cases U) auto
    show ?thesis using True lo hi U by (simp add: Let_def)
  next
    case False
    then show ?thesis using Suc.IH [OF lo] Suc.IH [OF hi] by (simp add: Let_def)
  qed
qed

lemma length_apply_cx: "length psi = 2 ^ q \<Longrightarrow> length (apply_cx c t q psi) = 2 ^ q"
proof (induction q arbitrary: psi)
  case 0
  then show ?case by simp
next
  case (Suc q)
  have lo: "length (take (2 ^ q) psi) = 2 ^ q" and hi: "length (drop (2 ^ q) psi) = 2 ^ q"
    using Suc.prems by simp_all
  show ?case
    using Suc.IH [OF lo] Suc.IH [OF hi] lo hi length_apply1 [OF hi, of x_matrix t]
    by (simp add: Let_def)
qed

lemma norm_sq_map2_pair:
  assumes u: "\<And>x y. (cmod (a * x + b * y))\<^sup>2 + (cmod (c * x + d * y))\<^sup>2
                 = (cmod x)\<^sup>2 + (cmod y)\<^sup>2"
    and len: "length lo = length hi"
  shows "norm_sq (map2 (\<lambda>x y. a * x + b * y) lo hi) + norm_sq (map2 (\<lambda>x y. c * x + d * y) lo hi)
           = norm_sq lo + norm_sq hi"
  using len
proof (induction lo hi rule: list_induct2)
  case Nil
  then show ?case by (simp add: norm_sq_def)
next
  case (Cons x xs y ys)
  then show ?case using u [of x y] by (simp add: norm_sq_def)
qed

lemma norm_sq_apply1:
  assumes u: "\<And>x y. (cmod (a * x + b * y))\<^sup>2 + (cmod (c * x + d * y))\<^sup>2
                 = (cmod x)\<^sup>2 + (cmod y)\<^sup>2"
  shows "length psi = 2 ^ q \<Longrightarrow> norm_sq (apply1 (a, b, c, d) t q psi) = norm_sq psi"
proof (induction q arbitrary: psi)
  case 0
  then show ?case by simp
next
  case (Suc q)
  let ?lo = "take (2 ^ q) psi" and ?hi = "drop (2 ^ q) psi"
  have lo: "length ?lo = 2 ^ q" and hi: "length ?hi = 2 ^ q"
    using Suc.prems by simp_all
  have split: "norm_sq psi = norm_sq ?lo + norm_sq ?hi"
    using norm_sq_append [of ?lo ?hi] by simp
  show ?case
  proof (cases "t = q")
    case True
    have "length ?lo = length ?hi" using lo hi by simp
    from norm_sq_map2_pair [of a b c d, OF u this] True split show ?thesis
      by (simp add: Let_def norm_sq_append)
  next
    case False
    then show ?thesis using Suc.IH [OF lo] Suc.IH [OF hi] split
      by (simp add: Let_def norm_sq_append)
  qed
qed

lemma rotation_unitary:
  fixes c s :: real
  assumes "c\<^sup>2 + s\<^sup>2 = 1"
  shows "(cmod (complex_of_real c * x + complex_of_real (- s) * y))\<^sup>2
     + (cmod (complex_of_real s * x + complex_of_real c * y))\<^sup>2
   = (cmod x)\<^sup>2 + (cmod y)\<^sup>2"
proof -
  have "(cmod (complex_of_real c * x + complex_of_real (- s) * y))\<^sup>2
     + (cmod (complex_of_real s * x + complex_of_real c * y))\<^sup>2
     = (c\<^sup>2 + s\<^sup>2) * ((Re x)\<^sup>2 + (Im x)\<^sup>2 + (Re y)\<^sup>2 + (Im y)\<^sup>2)"
    unfolding cmod_power2 by (simp add: power2_eq_square algebra_simps)
  also have "\<dots> = (cmod x)\<^sup>2 + (cmod y)\<^sup>2"
    unfolding cmod_power2 assms by simp
  finally show ?thesis .
qed

lemma ry_unitary:
  "(cmod (complex_of_real (cos h) * x + complex_of_real (- sin h) * y))\<^sup>2
     + (cmod (complex_of_real (sin h) * x + complex_of_real (cos h) * y))\<^sup>2
   = (cmod x)\<^sup>2 + (cmod y)\<^sup>2"
  by (rule rotation_unitary) simp

lemma h_unitary:
  "(cmod (complex_of_real (1 / sqrt 2) * x + complex_of_real (1 / sqrt 2) * y))\<^sup>2
     + (cmod (complex_of_real (1 / sqrt 2) * x + complex_of_real (- (1 / sqrt 2)) * y))\<^sup>2
   = (cmod x)\<^sup>2 + (cmod y)\<^sup>2"
proof -
  have r: "(1 / sqrt 2)\<^sup>2 = (1 / 2 :: real)"
    by (simp add: power_divide)
  have "(cmod (complex_of_real (1 / sqrt 2) * x + complex_of_real (1 / sqrt 2) * y))\<^sup>2
     + (cmod (complex_of_real (1 / sqrt 2) * x + complex_of_real (- (1 / sqrt 2)) * y))\<^sup>2
     = 2 * (1 / sqrt 2)\<^sup>2 * ((Re x)\<^sup>2 + (Im x)\<^sup>2 + (Re y)\<^sup>2 + (Im y)\<^sup>2)"
    unfolding cmod_power2 by (simp add: power2_eq_square algebra_simps)
  then show ?thesis unfolding r by (simp add: cmod_power2)
qed

lemma diag_unitary:
  "(cmod (cis u * x + 0 * y))\<^sup>2 + (cmod (0 * x + cis v * y))\<^sup>2 = (cmod x)\<^sup>2 + (cmod y)\<^sup>2"
  by (simp add: norm_mult)

lemma p_unitary:
  "(cmod (1 * x + 0 * y))\<^sup>2 + (cmod (0 * x + cis v * y))\<^sup>2 = (cmod x)\<^sup>2 + (cmod y)\<^sup>2"
  by (simp add: norm_mult)

lemma x_unitary:
  "(cmod (0 * x + 1 * y))\<^sup>2 + (cmod (1 * x + 0 * (y::complex)))\<^sup>2 = (cmod x)\<^sup>2 + (cmod y)\<^sup>2"
  by simp

lemma norm_sq_nth: "norm_sq xs = (\<Sum>i<length xs. (cmod (xs ! i))\<^sup>2)"
  unfolding norm_sq_def by (simp add: sum_list_sum_nth atLeast0LessThan)

lemma norm_sq_map_upt: "norm_sq (map f [0..<m]) = (\<Sum>i<m. (cmod (f i))\<^sup>2)"
  unfolding norm_sq_def by (simp add: interv_sum_list_conv_sum_set_nat atLeast0LessThan comp_def)

lemma norm_sq_select:
  assumes "length lo = m" and "length hi = m"
  shows "norm_sq (map (\<lambda>i. if s i then hi ! i else lo ! i) [0..<m])
           + norm_sq (map (\<lambda>i. if s i then lo ! i else hi ! i) [0..<m])
         = norm_sq lo + norm_sq hi"
proof -
  have "(\<Sum>i<m. (cmod (if s i then hi ! i else lo ! i))\<^sup>2)
          + (\<Sum>i<m. (cmod (if s i then lo ! i else hi ! i))\<^sup>2)
        = (\<Sum>i<m. (cmod (lo ! i))\<^sup>2 + (cmod (hi ! i))\<^sup>2)"
    unfolding sum.distrib [symmetric] by (rule sum.cong) auto
  then have "norm_sq (map (\<lambda>i. if s i then hi ! i else lo ! i) [0..<m])
           + norm_sq (map (\<lambda>i. if s i then lo ! i else hi ! i) [0..<m])
         = (\<Sum>i<m. (cmod (lo ! i))\<^sup>2) + (\<Sum>i<m. (cmod (hi ! i))\<^sup>2)"
    unfolding norm_sq_map_upt by (simp add: sum.distrib)
  then show ?thesis
    using assms by (simp add: norm_sq_nth)
qed

lemma norm_sq_apply_cx:
  "length psi = 2 ^ q \<Longrightarrow> norm_sq (apply_cx c t q psi) = norm_sq psi"
proof (induction q arbitrary: psi)
  case 0
  then show ?case by simp
next
  case (Suc q)
  let ?lo = "take (2 ^ q) psi" and ?hi = "drop (2 ^ q) psi"
  have lo: "length ?lo = 2 ^ q" and hi: "length ?hi = 2 ^ q"
    using Suc.prems by simp_all
  have split: "norm_sq psi = norm_sq ?lo + norm_sq ?hi"
    using norm_sq_append [of ?lo ?hi] by simp
  have x: "norm_sq (apply1 x_matrix t q ?hi) = norm_sq ?hi"
    unfolding x_matrix_def by (rule norm_sq_apply1 [OF x_unitary hi])
  show ?case
    using Suc.IH [OF lo] Suc.IH [OF hi] split x norm_sq_select [OF lo hi, of "\<lambda>i. bit i c"]
    by (simp add: Let_def norm_sq_append)
qed

lemma length_init_state: "length (init_state q) = 2 ^ q"
  by (simp add: init_state_def)

lemma norm_sq_init_state: "norm_sq (init_state q) = 1"
  by (simp add: init_state_def norm_sq_def sum_list_replicate)

text \<open>The qubit order on basis states of two qubits: index \<open>2 b\<^sub>1 + b\<^sub>0\<close>.\<close>

lemma apply1_x_basis: "apply1 x_matrix 0 2 [1, 0, 0, 0] = [0, 1, 0, 0]"
  by (simp add: numeral_2_eq_2 x_matrix_def)

lemma apply_cx_basis: "apply_cx 0 1 2 [0, 1, 0, 0] = [0, 0, 0, 1]"
  by (simp add: numeral_2_eq_2 upt_rec Let_def bit_0)

lemma apply_cx_basis_control_high: "apply_cx 1 0 2 [0, 0, 1, 0] = [0, 0, 0, 1]"
  by (simp add: numeral_2_eq_2 x_matrix_def)

subsection \<open>Binding and encoding\<close>

lemma to_float_bind_Some:
  "set (pexpr_params e) \<subseteq> dom b \<Longrightarrow> \<exists>v. to_float (bind_pexpr b e) = Some v"
  by (induction e) auto

lemma to_float_bind_dom:
  "to_float (bind_pexpr b e) = Some v \<Longrightarrow> set (pexpr_params e) \<subseteq> dom b"
  by (induction e arbitrary: v) (auto split: option.splits)

lemma to_float_bind_None:
  "\<not> set (pexpr_params e) \<subseteq> dom b \<Longrightarrow> to_float (bind_pexpr b e) = None"
  using to_float_bind_dom [of b e] by (cases "to_float (bind_pexpr b e)") auto

lemma apply_gate_bound:
  assumes "set (gate_params g) \<subseteq> dom b" and "length psi = 2 ^ q"
  shows "\<exists>s. apply_gate q (bind_gate b g) psi = Inr s \<and> length s = 2 ^ q
           \<and> norm_sq s = norm_sq psi"
proof (cases g)
  case (RY e t)
  with assms(1) obtain v where "to_float (bind_pexpr b e) = Some v"
    using to_float_bind_Some by fastforce
  then show ?thesis
    using RY assms(2) norm_sq_apply1 [OF ry_unitary assms(2)]
    by (simp add: ry_matrix_def length_apply1)
next
  case (RZ e t)
  with assms(1) obtain v where "to_float (bind_pexpr b e) = Some v"
    using to_float_bind_Some by fastforce
  then show ?thesis
    using RZ assms(2) norm_sq_apply1 [OF diag_unitary assms(2)]
    by (simp add: rz_matrix_def length_apply1)
next
  case (H t)
  then show ?thesis
    using assms(2) norm_sq_apply1 [OF h_unitary assms(2)]
    by (simp add: h_matrix_def length_apply1)
next
  case (P e t)
  with assms(1) obtain v where "to_float (bind_pexpr b e) = Some v"
    using to_float_bind_Some by fastforce
  then show ?thesis
    using P assms(2) norm_sq_apply1 [OF p_unitary assms(2)]
    by (simp add: p_matrix_def length_apply1)
next
  case (CX c t)
  then show ?thesis
    using assms(2) by (simp add: length_apply_cx norm_sq_apply_cx)
qed

lemma apply_gate_unbound:
  assumes "\<not> set (gate_params g) \<subseteq> dom b"
  shows "apply_gate q (bind_gate b g) psi = Inl UnboundParameter"
  using assms by (cases g) (simp_all add: to_float_bind_None)

lemma apply_gate_error:
  "apply_gate q g psi = Inl e \<Longrightarrow> e = UnboundParameter"
  by (cases g) (auto split: option.splits)

lemma evolve_bound:
  assumes "\<forall>g \<in> set gs. set (gate_params g) \<subseteq> dom b" and "length psi = 2 ^ q"
  shows "\<exists>s. evolve q (map (bind_gate b) gs) psi = Inr s \<and> length s = 2 ^ q
           \<and> norm_sq s = norm_sq psi"
  using assms
proof (induction gs arbitrary: psi)
  case Nil
  then show ?case by simp
next
  case (Cons g gs)
  from Cons.prems obtain s where s: "apply_gate q (bind_gate b g) psi = Inr s"
    "length s = 2 ^ q" "norm_sq s = norm_sq psi"
    using apply_gate_bound [of g b psi q] by auto
  from Cons.IH [of s] Cons.prems(1) s(2) obtain s' where
    "evolve q (map (bind_gate b) gs) s = Inr s'" "length s' = 2 ^ q" "norm_sq s' = norm_sq s"
    by auto
  with s show ?case by simp
qed

lemma evolve_unbound:
  assumes "\<exists>g \<in> set gs. \<not> set (gate_params g) \<subseteq> dom b"
  shows "evolve q (map (bind_gate b) gs) psi = Inl UnboundParameter"
  using assms
proof (induction gs arbitrary: psi)
  case Nil
  then show ?case by simp
next
  case (Cons g gs)
  show ?case
  proof (cases "set (gate_params g) \<subseteq> dom b")
    case False
    then show ?thesis by (simp add: apply_gate_unbound)
  next
    case True
    with Cons.prems have rest: "\<exists>g \<in> set gs. \<not> set (gate_params g) \<subseteq> dom b" by auto
    show ?thesis
    proof (cases "apply_gate q (bind_gate b g) psi")
      case (Inl e)
      then show ?thesis using apply_gate_error [OF Inl] by simp
    next
      case (Inr s)
      then show ?thesis using Cons.IH [OF rest] by simp
    qed
  qed
qed

lemma set_parameters: "set (parameters fm) = (\<Union>g \<in> set (data fm). set (gate_params g))"
  by (simp add: parameters_def)

lemma distinct_parameters: "distinct (parameters fm)"
  by (simp add: parameters_def)

lemma dom_binding: "dom (map_of (zip ps x)) = set (take (length x) ps)"
proof -
  have "dom (map_of (zip ps x)) = set (map fst (zip ps x))"
    by (simp add: dom_map_of_conv_image_fst)
  also have "\<dots> = set (take (length x) ps)"
    by (cases "length x \<le> length ps") (simp_all add: map_fst_zip_take min_def)
  finally show ?thesis .
qed

lemma zip_surplus: "zip ps x = zip ps (take (length ps) x)"
proof -
  have "zip ps x = take (length ps) (zip ps x)" by simp
  also have "\<dots> = zip ps (take (length ps) x)" by (simp add: take_zip)
  finally show ?thesis .
qed

lemma encode_ok:
  assumes "length (parameters fm) \<le> length x"
  shows "\<exists>s. encode_to_statevector fm x = Inr s \<and> length s = 2 ^ num_qubits fm
           \<and> norm_sq s = 1"
proof -
  let ?b = "map_of (zip (parameters fm) x)"
  have "dom ?b = set (parameters fm)"
    using assms by (simp add: dom_binding)
  then have "\<forall>g \<in> set (data fm). set (gate_params g) \<subseteq> dom ?b"
    by (auto simp: set_parameters)
  from evolve_bound [OF this, of "init_state (num_qubits fm)" "num_qubits fm"]
  show ?thesis
    by (simp add: encode_to_statevector_def from_instruction_def bind_parameters_def
        length_init_state norm_sq_init_state)
qed

lemma encode_short:
  assumes "length x < length (parameters fm)"
  shows "encode_to_statevector fm x = Inl UnboundParameter"
proof -
  let ?ps = "parameters fm" and ?b = "map_of (zip (parameters fm) x)"
  let ?p = "?ps ! length x"
  have "?p \<in> set ?ps" using assms by simp
  moreover have "?p \<notin> set (take (length x) ?ps)"
  proof
    assume "?p \<in> set (take (length x) ?ps)"
    then obtain i where i: "i < length x" "take (length x) ?ps ! i = ?p"
      using assms by (auto simp: in_set_conv_nth)
    then have "?ps ! i = ?ps ! length x" by simp
    with distinct_parameters [of fm] i(1) assms show False
      by (simp add: nth_eq_iff_index_eq)
  qed
  ultimately obtain g where "g \<in> set (data fm)" "\<not> set (gate_params g) \<subseteq> dom ?b"
    by (auto simp: set_parameters dom_binding)
  then have "\<exists>g \<in> set (data fm). \<not> set (gate_params g) \<subseteq> dom ?b" by blast
  from evolve_unbound [OF this]
  show ?thesis
    by (simp add: encode_to_statevector_def from_instruction_def bind_parameters_def)
qed

lemma encode_surplus:
  "encode_to_statevector fm x = encode_to_statevector fm (take (length (parameters fm)) x)"
  using zip_surplus [of "parameters fm" x] by (simp add: encode_to_statevector_def)

text \<open>Both feature maps have one free parameter per qubit, \<open>x[0], \<dots>, x[n - 1]\<close>.\<close>

lemma parameters_angle: "parameters (build_angle_encoding_map n) = [0..<n]"
proof -
  have "set (concat (map gate_params (data (build_angle_encoding_map n)))) = {0..<n}"
    by (auto simp: build_angle_encoding_map_def)
  then show ?thesis
    by (simp add: parameters_def)
qed

lemma params_zz_layer: "set (concat (map gate_params (zz_layer n))) = {0..<n}"
  by (auto simp: zz_layer_def zz_block_def zz_pairs_def)

lemma parameters_zz:
  assumes "0 < reps"
  shows "parameters (build_zz_feature_map n reps) = [0..<n]"
proof -
  have "set (concat (map gate_params (zz_layer n))) = {0..<n}"
    by (rule params_zz_layer)
  moreover have "set (concat (map gate_params (concat (replicate reps (zz_layer n)))))
                   = set (concat (map gate_params (zz_layer n)))"
    using assms by (cases reps) auto
  ultimately show ?thesis
    by (simp add: parameters_def build_zz_feature_map_def)
qed

text \<open>The angle encoding of one feature, in closed form.\<close>

lemma encode_angle_one_qubit:
  "encode_to_statevector (build_angle_encoding_map 1) [v]
     = Inr [cis (- v / 4) * complex_of_real (cos (v / 2)),
            cis (v / 4) * complex_of_real (sin (v / 2))]"
  unfolding encode_to_statevector_def parameters_angle
  by (simp add: build_angle_encoding_map_def bind_parameters_def from_instruction_def
      init_state_def ry_matrix_def rz_matrix_def)

subsection \<open>The claims on \<open>encode_to_statevector\<close>\<close>

lemma parameters_angle2: "parameters (build_angle_encoding_map 2) = [0, 1]"
  by (simp add: parameters_angle numeral_2_eq_2)

lemma parameters_zz2: "parameters (build_zz_feature_map 2 2) = [0, 1]"
  by (simp add: parameters_zz numeral_2_eq_2)

text \<open>
  Claim C2: a point with one value per free parameter is encoded without error, by either
  feature map (the statement holds for every circuit over the gates above); the statevector
  has \<open>2 ^ num_qubits\<close> amplitudes whose squared magnitudes sum to 1, hence to 1 within
  \<open>1e-6\<close>.  The arithmetic is exact: rounding is not part of the model.
\<close>

theorem encode_to_statevector_unit_norm:
  assumes "length x = length (parameters fm)"
  shows "\<exists>s. encode_to_statevector fm x = Inr s \<and> length s = 2 ^ num_qubits fm
           \<and> norm_sq s = 1 \<and> \<bar>norm_sq s - 1\<bar> \<le> 1 / 10 ^ 6"
proof -
  from assms have "length (parameters fm) \<le> length x" by simp
  from encode_ok [OF this] show ?thesis by auto
qed

theorem encode_to_statevector_unit_norm_witness:
  "(\<exists>s. encode_to_statevector (build_angle_encoding_map 2) [1 / 10, - (1 / 5)] = Inr s
        \<and> length s = 4 \<and> norm_sq s = 1)
   \<and> (\<exists>s. encode_to_statevector (build_zz_feature_map 2 2) [1 / 10, - (1 / 5)] = Inr s
        \<and> length s = 4 \<and> norm_sq s = 1)"
proof -
  have a: "length [1 / 10, - (1 / 5) :: real] = length (parameters (build_angle_encoding_map 2))"
    by (simp add: parameters_angle2)
  have z: "length [1 / 10, - (1 / 5) :: real] = length (parameters (build_zz_feature_map 2 2))"
    by (simp add: parameters_zz2)
  from encode_to_statevector_unit_norm [OF a] encode_to_statevector_unit_norm [OF z]
  show ?thesis
    by (auto simp: build_angle_encoding_map_def build_zz_feature_map_def)
qed

text \<open>
  Claim C5, as the code has it.  Nothing compares the length of the point with the number of
  free parameters.  A point with fewer components leaves a parameter free, and the
  simulation fails on it (the code has no \<open>DimensionMismatch\<close>); a point with more
  components does not fail.
\<close>

theorem encode_length_mismatch:
  "(length x < length (parameters fm) \<longrightarrow> encode_to_statevector fm x = Inl UnboundParameter)
   \<and> (length (parameters fm) < length x \<longrightarrow> \<not> isl (encode_to_statevector fm x))"
proof (intro conjI impI)
  assume "length x < length (parameters fm)"
  then show "encode_to_statevector fm x = Inl UnboundParameter" by (rule encode_short)
next
  assume "length (parameters fm) < length x"
  then have "length (parameters fm) \<le> length x" by simp
  from encode_ok [OF this] show "\<not> isl (encode_to_statevector fm x)" by auto
qed

theorem encode_length_mismatch_witness:
  "encode_to_statevector (build_angle_encoding_map 2) [1 / 10] = Inl UnboundParameter
   \<and> \<not> isl (encode_to_statevector (build_zz_feature_map 2 2) [1 / 10, 1 / 5, 3 / 10])"
  using encode_length_mismatch [of "[1 / 10]" "build_angle_encoding_map 2"]
    encode_length_mismatch [of "[1 / 10, 1 / 5, 3 / 10]" "build_zz_feature_map 2 2"]
  by (simp add: parameters_angle2 parameters_zz2)

text \<open>
  Claim C5 as stated fails: the two-qubit angle encoding has two free parameters, and a
  point of three components is encoded without error.
\<close>

theorem encode_longer_point_counterexample:
  "\<not> isl (encode_to_statevector (build_angle_encoding_map 2) [1 / 10, 1 / 5, 3 / 10])"
proof -
  have "length (parameters (build_angle_encoding_map 2)) \<le> length [1 / 10, 1 / 5, 3 / 10 :: real]"
    by (simp add: parameters_angle2)
  from encode_ok [OF this] show ?thesis by auto
qed

lemma bind_pexpr_cong:
  "\<forall>q \<in> set (pexpr_params e). b q = b' q \<Longrightarrow> bind_pexpr b e = bind_pexpr b' e"
  by (induction e) auto

lemma bind_gate_cong:
  "\<forall>q \<in> set (gate_params g). b q = b' q \<Longrightarrow> bind_gate b g = bind_gate b' g"
  by (cases g) (auto intro: bind_pexpr_cong)

lemma bind_parameters_cong:
  assumes "\<forall>q \<in> set (parameters fm). b q = b' q"
  shows "bind_parameters fm b = bind_parameters fm b'"
proof -
  have "map (bind_gate b) (data fm) = map (bind_gate b') (data fm)"
    using assms by (intro map_cong refl bind_gate_cong) (auto simp: set_parameters)
  then show ?thesis
    by (simp add: bind_parameters_def)
qed

lemma binding_positional:
  assumes "length (parameters fm) \<le> length x" and "i < length (parameters fm)"
  shows "map_of (zip (parameters fm) x) (parameters fm ! i) = Some (x ! i)"
proof -
  let ?ps = "parameters fm"
  have "map_of (zip ?ps (take (length ?ps) x)) (?ps ! i) = Some (take (length ?ps) x ! i)"
    using assms distinct_parameters [of fm] by (intro map_of_zip_nth) simp_all
  then show ?thesis
    using assms(2) zip_surplus [of ?ps x] by simp
qed

text \<open>
  Claim C9: a point with more components than the map has free parameters is encoded
  without error.  The statevector is the one of the point cut to as many components as
  there are free parameters, whatever the surplus components are, and it is the state of
  the circuit in which the \<open>i\<close>-th parameter, in the order of \<open>parameters\<close>, is bound to
  the \<open>i\<close>-th component of the point: every binding that does so gives this state.
\<close>

theorem encode_surplus_ignored:
  assumes "length (parameters fm) < length x"
  shows "\<exists>s. encode_to_statevector fm x = Inr s
           \<and> encode_to_statevector fm (take (length (parameters fm)) x) = Inr s
           \<and> (\<forall>ys. encode_to_statevector fm (take (length (parameters fm)) x @ ys) = Inr s)
           \<and> (\<forall>b. (\<forall>i < length (parameters fm). b (parameters fm ! i) = Some (x ! i))
                  \<longrightarrow> from_instruction (bind_parameters fm b) = Inr s)"
proof -
  let ?ps = "parameters fm"
  from assms have le: "length ?ps \<le> length x" by simp
  from encode_ok [OF le] obtain s where s: "encode_to_statevector fm x = Inr s" by auto
  have t: "encode_to_statevector fm (take (length ?ps) x) = Inr s"
    using s encode_surplus [of fm x] by simp
  have "\<forall>ys. encode_to_statevector fm (take (length ?ps) x @ ys) = Inr s"
  proof
    fix ys
    have e: "take (length ?ps) (take (length ?ps) x @ ys) = take (length ?ps) x"
      using le by simp
    have "encode_to_statevector fm (take (length ?ps) x @ ys)
            = encode_to_statevector fm (take (length ?ps) (take (length ?ps) x @ ys))"
      by (rule encode_surplus)
    also have "\<dots> = Inr s"
      unfolding e by (rule t)
    finally show "encode_to_statevector fm (take (length ?ps) x @ ys) = Inr s" .
  qed
  moreover have "\<forall>b. (\<forall>i < length ?ps. b (?ps ! i) = Some (x ! i))
                  \<longrightarrow> from_instruction (bind_parameters fm b) = Inr s"
  proof (intro allI impI)
    fix b :: "nat \<rightharpoonup> real"
    assume b: "\<forall>i < length ?ps. b (?ps ! i) = Some (x ! i)"
    have "\<forall>q \<in> set ?ps. map_of (zip ?ps x) q = b q"
    proof
      fix q assume "q \<in> set ?ps"
      then obtain i where i: "i < length ?ps" "q = ?ps ! i"
        by (auto simp: in_set_conv_nth)
      with b binding_positional [OF le i(1)] show "map_of (zip ?ps x) q = b q" by simp
    qed
    from bind_parameters_cong [OF this] s
    show "from_instruction (bind_parameters fm b) = Inr s"
      by (simp add: encode_to_statevector_def)
  qed
  ultimately show ?thesis using s t by blast
qed

theorem encode_surplus_ignored_witness:
  "encode_to_statevector (build_angle_encoding_map 1) [1 / 2, 7]
     = Inr [cis (- (1 / 8)) * complex_of_real (cos (1 / 4)),
            cis (1 / 8) * complex_of_real (sin (1 / 4))]
   \<and> encode_to_statevector (build_angle_encoding_map 1) [1 / 2]
     = encode_to_statevector (build_angle_encoding_map 1) [1 / 2, 7]
   \<and> encode_to_statevector (build_angle_encoding_map 1) [1 / 2, 9, 11]
     = encode_to_statevector (build_angle_encoding_map 1) [1 / 2, 7]
   \<and> from_instruction (bind_parameters (build_angle_encoding_map 1) [0 \<mapsto> 1 / 2])
     = encode_to_statevector (build_angle_encoding_map 1) [1 / 2, 7]"
proof -
  have p: "parameters (build_angle_encoding_map 1) = [0]"
    by (simp add: parameters_angle)
  have "length (parameters (build_angle_encoding_map 1)) < length [1 / 2, 7 :: real]"
    unfolding p by simp
  from encode_surplus_ignored [OF this] obtain s where
    s: "encode_to_statevector (build_angle_encoding_map 1) [1 / 2, 7] = Inr s"
    and t: "encode_to_statevector (build_angle_encoding_map 1) [1 / 2] = Inr s"
    and u: "\<forall>ys. encode_to_statevector (build_angle_encoding_map 1) ([1 / 2] @ ys) = Inr s"
    and v: "\<forall>b. b 0 = Some (1 / 2)
              \<longrightarrow> from_instruction (bind_parameters (build_angle_encoding_map 1) b) = Inr s"
    unfolding p by auto
  from u have "encode_to_statevector (build_angle_encoding_map 1) ([1 / 2] @ [9, 11]) = Inr s"
    by blast
  moreover from v have
    "from_instruction (bind_parameters (build_angle_encoding_map 1) [0 \<mapsto> 1 / 2]) = Inr s"
    by simp
  moreover have "s = [cis (- (1 / 8)) * complex_of_real (cos (1 / 4)),
            cis (1 / 8) * complex_of_real (sin (1 / 4))]"
    using t encode_angle_one_qubit [of "1 / 2"] by simp
  ultimately show ?thesis using s t by simp
qed

section \<open>Properties of fidelity and distance\<close>

lemma overlap_sym:
  "length a = length b \<Longrightarrow>
     sum_list (map2 (\<lambda>x y. cnj x * y) b a) = cnj (sum_list (map2 (\<lambda>x y. cnj x * y) a b))"
  by (induction a b rule: list_induct2) simp_all

lemma overlap_self:
  "sum_list (map2 (\<lambda>x y. cnj x * y) s s) = complex_of_real (norm_sq s)"
proof (induction s)
  case Nil
  then show ?case by (simp add: norm_sq_def)
next
  case (Cons z s)
  have "cnj z * z = complex_of_real ((cmod z)\<^sup>2)"
    unfolding complex_norm_square by (simp add: mult.commute)
  with Cons show ?case by (simp add: norm_sq_def)
qed

lemma overlap_bound:
  "length a = length b \<Longrightarrow>
     cmod (sum_list (map2 (\<lambda>x y. cnj x * y) a b)) \<le> (norm_sq a + norm_sq b) / 2"
proof (induction a b rule: list_induct2)
  case Nil
  then show ?case by (simp add: norm_sq_def)
next
  case (Cons x xs y ys)
  let ?r = "sum_list (map2 (\<lambda>x y. cnj x * y) xs ys)"
  have "cmod (cnj x * y + ?r) \<le> cmod (cnj x * y) + cmod ?r"
    by (rule norm_triangle_ineq)
  moreover have "cmod (cnj x * y) = cmod x * cmod y"
    by (simp add: norm_mult)
  moreover have "cmod x * cmod y \<le> ((cmod x)\<^sup>2 + (cmod y)\<^sup>2) / 2"
    using sum_squares_bound [of "cmod x" "cmod y"] by simp
  ultimately show ?case
    using Cons.IH by (simp add: norm_sq_def)
qed

text \<open>
  Claim C8: fidelity is symmetric in its arguments, exactly; when the sizes differ both
  orders raise the same \<open>ValueError\<close>.
\<close>

theorem fidelity_symmetric: "fidelity s1 s2 = fidelity s2 s1"
proof (cases "length s1 = length s2")
  case True
  then show ?thesis
    using overlap_sym [OF True] by (simp add: fidelity_def vdot_def)
next
  case False
  then show ?thesis
    by (auto simp: fidelity_def vdot_def)
qed

text \<open>
  Nothing in \<open>fidelity\<close> normalises its arguments or clips its result: the fidelity of a
  vector with itself is the square of its squared-amplitude sum.
\<close>

lemma fidelity_self: "fidelity s s = Inr ((norm_sq s)\<^sup>2)"
  by (simp add: fidelity_def vdot_def overlap_self)

text \<open>
  Claim C7 does not hold of the code.  The docstring of \<open>fidelity\<close> promises a value in
  \<open>[0, 1]\<close>, but a float statevector is unit only up to rounding.  For the array
  \<open>[1.0, 2 ** -26]\<close>, whose squared-amplitude sum \<open>1 + 2 ** -52\<close> is the float next to 1,
  the fidelity with itself is above 1 and the distance to itself is negative.  (The code
  rounds the square to \<open>1 + 2 ** -51\<close>, that is \<open>1.0000000000000004\<close>, and returns the
  distance \<open>-4.44e-16\<close>; every other operation on this input is exact in floats.)
\<close>

theorem fidelity_above_one:
  "norm_sq [1, 1 / 2 ^ 26] = 1 + 1 / 2 ^ 52
   \<and> fidelity [1, 1 / 2 ^ 26] [1, 1 / 2 ^ 26] = Inr ((1 + 1 / 2 ^ 52)\<^sup>2)
   \<and> (1 :: real) < (1 + 1 / 2 ^ 52)\<^sup>2
   \<and> quantum_distance [1, 1 / 2 ^ 26] [1, 1 / 2 ^ 26] = Inr (1 - (1 + 1 / 2 ^ 52)\<^sup>2)
   \<and> 1 - (1 + 1 / 2 ^ 52)\<^sup>2 < (0 :: real)"
proof -
  have n: "norm_sq [1, 1 / 2 ^ 26] = 1 + 1 / 2 ^ 52"
    by (simp add: norm_sq_def norm_divide norm_power power_divide)
  have f: "fidelity [1, 1 / 2 ^ 26] [1, 1 / 2 ^ 26] = Inr ((1 + 1 / 2 ^ 52)\<^sup>2)"
    by (simp add: fidelity_def vdot_def overlap_self n del: of_real_add)
  have g: "(1 :: real) < (1 + 1 / 2 ^ 52)\<^sup>2"
    by (simp add: power2_eq_square algebra_simps)
  from n f g show ?thesis
    by (simp add: quantum_distance_def)
qed

section \<open>Properties of the clustering loop\<close>

subsection \<open>Initialisation\<close>

lemma counter_generator_contract: "generator_contract counter_generator"
  by (simp add: generator_contract_def counter_generator_def)

lemma kmeans_loop_empty: "kmeans_loop R dt fm [] 0 m [] [] g = Inr ([], [])"
  by (cases m) (simp_all add: encode_points_def assign_labels_def allclose_def)

lemma initialize_centers_too_many:
  "int (length X) < k \<Longrightarrow> initialize_centers R X k g = Inl ValueError"
  by (simp add: initialize_centers_def rng_choice_def)

lemma initialize_centers_ok:
  assumes "generator_contract R" and "0 \<le> k" and "k \<le> int (length X)"
  shows "initialize_centers R X k g =
           Inr (map (\<lambda>i. X ! i) (fst (sample R g (length X) (nat k))),
                snd (sample R g (length X) (nat k)))"
proof -
  have kn: "nat k \<le> length X"
    using assms by linarith
  from assms(1) kn have "\<forall>i \<in> set (fst (sample R g (length X) (nat k))). i < length X"
    unfolding generator_contract_def by blast
  moreover have "\<not> (k < 0 \<or> int (length X) < k \<or> (length X = 0 \<and> k \<noteq> 0))"
    using assms by auto
  ultimately show ?thesis
    by (simp add: initialize_centers_def rng_choice_def take_rows_def split: prod.splits)
qed

text \<open>
  Claim C4, as the code has it.  No argument of \<open>quantum_kmeans\<close> is validated and the code
  has no \<open>InvalidClusterCount\<close> or \<open>EmptyDataset\<close>: asking for more clusters than there are
  points fails with the \<open>ValueError\<close> of the sampling without replacement, before any
  iteration; an empty dataset fails in the same way when the cluster count is not zero, and
  with a cluster count of zero the call returns empty labels and empty centers.
\<close>

theorem quantum_kmeans_invalid_counts:
  "(int (length X) < n_clusters \<longrightarrow>
      quantum_kmeans R dt X n_clusters max_iters fm random_state = Inl ValueError)
   \<and> (X = [] \<and> n_clusters \<noteq> 0 \<longrightarrow>
      quantum_kmeans R dt X n_clusters max_iters fm random_state = Inl ValueError)
   \<and> (generator_contract R \<and> 0 \<le> random_state \<and> X = [] \<and> n_clusters = 0 \<longrightarrow>
      quantum_kmeans R dt X n_clusters max_iters fm random_state = Inr ([], []))"
proof (intro conjI impI)
  assume "int (length X) < n_clusters"
  then show "quantum_kmeans R dt X n_clusters max_iters fm random_state = Inl ValueError"
    by (simp add: quantum_kmeans_def default_rng_def initialize_centers_too_many)
next
  assume "X = [] \<and> n_clusters \<noteq> 0"
  then show "quantum_kmeans R dt X n_clusters max_iters fm random_state = Inl ValueError"
    by (simp add: quantum_kmeans_def default_rng_def initialize_centers_def rng_choice_def)
next
  assume a: "generator_contract R \<and> 0 \<le> random_state \<and> X = [] \<and> n_clusters = 0"
  then have "initialize_centers R X n_clusters (seeded R random_state) =
       Inr (map (\<lambda>i. X ! i)
              (fst (sample R (seeded R random_state) (length X) (nat n_clusters))),
            snd (sample R (seeded R random_state) (length X) (nat n_clusters)))"
    by (intro initialize_centers_ok) simp_all
  moreover from a have "length (fst (sample R (seeded R random_state) 0 0)) = 0"
    unfolding generator_contract_def by blast
  ultimately show "quantum_kmeans R dt X n_clusters max_iters fm random_state = Inr ([], [])"
    using a by (simp add: quantum_kmeans_def default_rng_def kmeans_loop_empty)
qed

text \<open>
  Claim C4 as stated fails: with no points and a cluster count of zero the call does not
  fail, whatever the iteration budget.
\<close>

theorem quantum_kmeans_empty_dataset_counterexample:
  "quantum_kmeans counter_generator Float64 [] 0 10 (Some (build_angle_encoding_map 2)) 0
     = Inr ([], [])"
  by (simp add: quantum_kmeans_def default_rng_def initialize_centers_def rng_choice_def
      counter_generator_def take_rows_def kmeans_loop_empty)

theorem quantum_kmeans_invalid_counts_witness:
  "quantum_kmeans counter_generator Float64 [[0, 0]] 2 10 (Some (build_angle_encoding_map 2)) 0
     = Inl ValueError
   \<and> quantum_kmeans counter_generator Float64 [] 1 10 (Some (build_angle_encoding_map 2)) 0
     = Inl ValueError
   \<and> quantum_kmeans counter_generator Float64 [] 0 3 (Some (build_angle_encoding_map 2)) 7
     = Inr ([], [])"
  using
    quantum_kmeans_invalid_counts
      [of "[[0, 0]]" 2 counter_generator Float64 10 "Some (build_angle_encoding_map 2)" 0]
    quantum_kmeans_invalid_counts
      [of "[]" 1 counter_generator Float64 10 "Some (build_angle_encoding_map 2)" 0]
    quantum_kmeans_invalid_counts
      [of "[]" 0 counter_generator Float64 3 "Some (build_angle_encoding_map 2)" 7]
    counter_generator_contract
  by simp

text \<open>
  Claim C10: with \<open>max_iters = 0\<close> the loop body never runs.  For a cluster count between 0
  and the number of points, the call returns the all-zero labels, one per point, and as
  centers the rows of the dataset at the indices drawn by the seeded generator's sampling
  without replacement: as many as clusters, pairwise distinct, all in range.
\<close>

theorem quantum_kmeans_zero_iters:
  assumes "generator_contract R" and "0 \<le> random_state"
    and "0 \<le> n_clusters" and "n_clusters \<le> int (length X)"
  shows "\<exists>indices. quantum_kmeans R dt X n_clusters 0 fm random_state
           = Inr (replicate (length X) 0, map (\<lambda>i. X ! i) indices)
         \<and> indices = fst (sample R (seeded R random_state) (length X) (nat n_clusters))
         \<and> int (length indices) = n_clusters \<and> distinct indices
         \<and> (\<forall>i \<in> set indices. i < length X)"
proof -
  let ?idx = "fst (sample R (seeded R random_state) (length X) (nat n_clusters))"
  have kn: "nat n_clusters \<le> length X"
    using assms by linarith
  from assms(1) kn
  have c: "length ?idx = nat n_clusters \<and> distinct ?idx \<and> (\<forall>i \<in> set ?idx. i < length X)"
    unfolding generator_contract_def by blast
  have "quantum_kmeans R dt X n_clusters 0 fm random_state
          = Inr (replicate (length X) 0, map (\<lambda>i. X ! i) ?idx)"
    using assms by (simp add: quantum_kmeans_def default_rng_def initialize_centers_ok)
  with c assms(3) show ?thesis by simp
qed

theorem quantum_kmeans_zero_iters_witness:
  "quantum_kmeans counter_generator Float64 [[0, 0], [1, 2], [3, 4]] 2 0 None 5
     = Inr ([0, 0, 0], [[0, 0], [1, 2]])"
proof -
  have c: "generator_contract counter_generator"
    by (rule counter_generator_contract)
  have h: "(0::int) \<le> 5" "(0::int) \<le> 2"
    "(2::int) \<le> int (length [[0, 0], [1, 2], [3, 4::real]])"
    by simp_all
  from quantum_kmeans_zero_iters [OF c h, of Float64 None]
  show ?thesis by (simp add: counter_generator_def numeral_3_eq_3 eval_nat_numeral)
qed

subsection \<open>The update step\<close>

lemma advanced_trans:
  "h \<in> advanced R g1 \<Longrightarrow> g1 \<in> advanced R g \<Longrightarrow> h \<in> advanced R g"
  by (induction rule: advanced.induct) (auto intro: advanced.intros)

lemma cluster_points_subset: "set (cluster_points X labels k) \<subseteq> set X"
  by (auto simp: cluster_points_def dest: set_zip_leftD)

lemma length_mean_axis0:
  assumes "pts \<noteq> []" and "\<forall>p \<in> set pts. length p = d"
  shows "length (mean_axis0 pts) = d"
  using assms by (cases pts) (simp_all add: mean_axis0_def)

lemma mean_axis0_nth:
  assumes "pts \<noteq> []" and "\<forall>p \<in> set pts. length p = d" and "c < d"
  shows "mean_axis0 pts ! c = sum_list (map (\<lambda>p. p ! c) pts) / real (length pts)"
  using assms by (cases pts) (simp_all add: mean_axis0_def)

lemma update_centers_spec:
  assumes "generator_contract R" and "X \<noteq> []"
  shows "\<exists>cs g'. update_centers R dt X labels js g = Inr (cs, g') \<and> g' \<in> advanced R g
           \<and> length cs = length js
           \<and> (\<forall>i < length js.
                 (cluster_points X labels (js ! i) = [] \<longrightarrow>
                    (\<exists>h \<in> advanced R g. fst (draw R h (length X)) < length X
                        \<and> cs ! i = X ! fst (draw R h (length X))))
                 \<and> (cluster_points X labels (js ! i) \<noteq> [] \<longrightarrow>
                    cs ! i = map (astype dt) (mean_axis0 (cluster_points X labels (js ! i)))))"
proof (induction js arbitrary: g)
  case Nil
  then show ?case by (simp add: advanced.start)
next
  case (Cons j js)
  let ?n = "length X"
  have n: "0 < ?n" using assms(2) by simp
  show ?case
  proof (cases "cluster_points X labels j = []")
    case True
    let ?r = "fst (draw R g ?n)" and ?g1 = "snd (draw R g ?n)"
    have r: "?r < ?n"
      using assms(1) n unfolding generator_contract_def by blast
    have g1: "?g1 \<in> advanced R g"
      by (intro advanced.after_draw advanced.start)
    from Cons.IH [of ?g1] obtain cs g' where
      u: "update_centers R dt X labels js ?g1 = Inr (cs, g')" and g': "g' \<in> advanced R ?g1"
      and len: "length cs = length js"
      and each: "\<forall>i < length js.
                 (cluster_points X labels (js ! i) = [] \<longrightarrow>
                    (\<exists>h \<in> advanced R ?g1. fst (draw R h ?n) < ?n
                        \<and> cs ! i = X ! fst (draw R h ?n)))
                 \<and> (cluster_points X labels (js ! i) \<noteq> [] \<longrightarrow>
                    cs ! i = map (astype dt) (mean_axis0 (cluster_points X labels (js ! i))))"
      by blast
    have res: "update_centers R dt X labels (j # js) g = Inr (X ! ?r # cs, g')"
      using True n r u by (simp add: rng_integers_def case_prod_beta)
    have "\<forall>i < length (j # js).
                 (cluster_points X labels ((j # js) ! i) = [] \<longrightarrow>
                    (\<exists>h \<in> advanced R g. fst (draw R h ?n) < ?n
                        \<and> (X ! ?r # cs) ! i = X ! fst (draw R h ?n)))
                 \<and> (cluster_points X labels ((j # js) ! i) \<noteq> [] \<longrightarrow>
                    (X ! ?r # cs) ! i
                      = map (astype dt) (mean_axis0 (cluster_points X labels ((j # js) ! i))))"
    proof (intro allI impI)
      fix i assume i: "i < length (j # js)"
      show "(cluster_points X labels ((j # js) ! i) = [] \<longrightarrow>
                    (\<exists>h \<in> advanced R g. fst (draw R h ?n) < ?n
                        \<and> (X ! ?r # cs) ! i = X ! fst (draw R h ?n)))
                 \<and> (cluster_points X labels ((j # js) ! i) \<noteq> [] \<longrightarrow>
                    (X ! ?r # cs) ! i
                      = map (astype dt) (mean_axis0 (cluster_points X labels ((j # js) ! i))))"
      proof (cases i)
        case 0
        then show ?thesis using True r advanced.start [of g R] by auto
      next
        case (Suc i')
        with i have i': "i' < length js" by simp
        from each i' g1 show ?thesis
          unfolding Suc by (auto intro: advanced_trans)
      qed
    qed
    with res len g' g1 show ?thesis
      by (auto intro: advanced_trans)
  next
    case False
    from Cons.IH [of g] obtain cs g' where
      u: "update_centers R dt X labels js g = Inr (cs, g')" and g': "g' \<in> advanced R g"
      and len: "length cs = length js"
      and each: "\<forall>i < length js.
                 (cluster_points X labels (js ! i) = [] \<longrightarrow>
                    (\<exists>h \<in> advanced R g. fst (draw R h ?n) < ?n
                        \<and> cs ! i = X ! fst (draw R h ?n)))
                 \<and> (cluster_points X labels (js ! i) \<noteq> [] \<longrightarrow>
                    cs ! i = map (astype dt) (mean_axis0 (cluster_points X labels (js ! i))))"
      by blast
    let ?m = "map (astype dt) (mean_axis0 (cluster_points X labels j))"
    have res: "update_centers R dt X labels (j # js) g = Inr (?m # cs, g')"
      using False u by simp
    have "\<forall>i < length (j # js).
                 (cluster_points X labels ((j # js) ! i) = [] \<longrightarrow>
                    (\<exists>h \<in> advanced R g. fst (draw R h ?n) < ?n
                        \<and> (?m # cs) ! i = X ! fst (draw R h ?n)))
                 \<and> (cluster_points X labels ((j # js) ! i) \<noteq> [] \<longrightarrow>
                    (?m # cs) ! i
                      = map (astype dt) (mean_axis0 (cluster_points X labels ((j # js) ! i))))"
    proof (intro allI impI)
      fix i assume i: "i < length (j # js)"
      show "(cluster_points X labels ((j # js) ! i) = [] \<longrightarrow>
                    (\<exists>h \<in> advanced R g. fst (draw R h ?n) < ?n
                        \<and> (?m # cs) ! i = X ! fst (draw R h ?n)))
                 \<and> (cluster_points X labels ((j # js) ! i) \<noteq> [] \<longrightarrow>
                    (?m # cs) ! i
                      = map (astype dt) (mean_axis0 (cluster_points X labels ((j # js) ! i))))"
      proof (cases i)
        case 0
        then show ?thesis using False by simp
      next
        case (Suc i')
        with i have i': "i' < length js" by simp
        from each i' show ?thesis
          unfolding Suc by simp
      qed
    qed
    with res len g' show ?thesis by auto
  qed
qed

subsection \<open>The whole run\<close>

lemma map_result_ok:
  assumes "\<forall>x \<in> set xs. \<exists>y. f x = Inr y \<and> Q y"
  shows "\<exists>ys. map_result f xs = Inr ys \<and> length ys = length xs \<and> (\<forall>y \<in> set ys. Q y)"
  using assms
proof (induction xs)
  case Nil
  then show ?case by simp
next
  case (Cons x xs)
  from Cons.prems obtain y where y: "f x = Inr y" "Q y" by auto
  from Cons.IH Cons.prems obtain ys where
    "map_result f xs = Inr ys" "length ys = length xs" "\<forall>y \<in> set ys. Q y" by auto
  with y show ?case by simp
qed

lemma encode_points_ok:
  assumes "\<forall>x \<in> set pts. length (parameters fm) \<le> length x"
  shows "\<exists>ss. encode_points (Some fm) pts = Inr ss \<and> length ss = length pts
           \<and> (\<forall>s \<in> set ss. length s = 2 ^ num_qubits fm)"
  unfolding encode_points_def
proof (rule map_result_ok)
  show "\<forall>x \<in> set pts. \<exists>y. (case Some fm of None \<Rightarrow> Inl AttributeError
            | Some fm \<Rightarrow> encode_to_statevector fm x) = Inr y \<and> length y = 2 ^ num_qubits fm"
    using assms encode_ok [of fm] by fastforce
qed

lemma first_index_less: "v \<in> set xs \<Longrightarrow> first_index v xs < length xs"
  by (induction xs) auto

lemma argmin_ok: "ds \<noteq> [] \<Longrightarrow> \<exists>i. argmin ds = Inr i \<and> i < length ds"
  by (simp add: argmin_def first_index_less)

lemma quantum_distance_ok: "length s = length c \<Longrightarrow> \<exists>v. quantum_distance s c = Inr v"
  by (simp add: quantum_distance_def fidelity_def vdot_def)

lemma assign_labels_ok:
  assumes "\<forall>s \<in> set data_states. length s = L" and "\<forall>c \<in> set center_states. length c = L"
    and "center_states \<noteq> []"
  shows "\<exists>labels. assign_labels data_states center_states = Inr labels
           \<and> length labels = length data_states
           \<and> (\<forall>l \<in> set labels. l < length center_states)"
  unfolding assign_labels_def
proof (rule map_result_ok, rule ballI)
  fix s assume s: "s \<in> set data_states"
  have "\<forall>c \<in> set center_states. \<exists>v. quantum_distance s c = Inr v \<and> True"
    using assms(1,2) s quantum_distance_ok [of s] by simp
  from map_result_ok [OF this] obtain ds where
    ds: "map_result (quantum_distance s) center_states = Inr ds"
      "length ds = length center_states" by auto
  with assms(3) have "ds \<noteq> []" by auto
  from argmin_ok [OF this] ds
  show "\<exists>y. (case map_result (quantum_distance s) center_states of Inl e \<Rightarrow> Inl e
              | Inr distances \<Rightarrow> argmin distances) = Inr y \<and> y < length center_states"
    by auto
qed

lemma update_centers_shape:
  assumes "generator_contract R" and "X \<noteq> []" and "\<forall>x \<in> set X. length x = d"
  shows "\<exists>cs g'. update_centers R dt X labels js g = Inr (cs, g') \<and> length cs = length js
           \<and> (\<forall>c \<in> set cs. length c = d)"
proof -
  from update_centers_spec [OF assms(1,2), of dt labels js g] obtain cs g' where
    u: "update_centers R dt X labels js g = Inr (cs, g')" and len: "length cs = length js"
    and each: "\<forall>i < length js.
                 (cluster_points X labels (js ! i) = [] \<longrightarrow>
                    (\<exists>h \<in> advanced R g. fst (draw R h (length X)) < length X
                        \<and> cs ! i = X ! fst (draw R h (length X))))
                 \<and> (cluster_points X labels (js ! i) \<noteq> [] \<longrightarrow>
                    cs ! i = map (astype dt) (mean_axis0 (cluster_points X labels (js ! i))))"
    by blast
  have "\<forall>c \<in> set cs. length c = d"
  proof
    fix c assume "c \<in> set cs"
    then obtain i where i: "i < length js" "c = cs ! i"
      using len by (auto simp: in_set_conv_nth)
    let ?pts = "cluster_points X labels (js ! i)"
    show "length c = d"
    proof (cases "?pts = []")
      case True
      with each i obtain h where "fst (draw R h (length X)) < length X"
        "c = X ! fst (draw R h (length X))" by blast
      with assms(3) show ?thesis by simp
    next
      case False
      have "\<forall>p \<in> set ?pts. length p = d"
        using assms(3) cluster_points_subset [of X labels "js ! i"] by blast
      with False each i show ?thesis
        by (simp add: length_mean_axis0)
    qed
  qed
  with u len show ?thesis by blast
qed

lemma kmeans_loop_ok:
  assumes "generator_contract R" and "X \<noteq> []" and "\<forall>x \<in> set X. length x = d"
    and "0 < n_clusters" and "length (parameters fm) \<le> d"
  shows "length labels = length X \<Longrightarrow> \<forall>l \<in> set labels. int l < n_clusters \<Longrightarrow>
         int (length centers) = n_clusters \<Longrightarrow> \<forall>c \<in> set centers. length c = d \<Longrightarrow>
         \<exists>labels' centers'.
           kmeans_loop R dt (Some fm) X n_clusters m labels centers g = Inr (labels', centers')
           \<and> length labels' = length X \<and> (\<forall>l \<in> set labels'. int l < n_clusters)
           \<and> int (length centers') = n_clusters \<and> (\<forall>c \<in> set centers'. length c = d)"
proof (induction m arbitrary: labels centers g)
  case 0
  then show ?case by simp
next
  case (Suc m)
  from encode_points_ok [of X fm] assms(3,5) obtain ds where
    ds: "encode_points (Some fm) X = Inr ds" "length ds = length X"
      "\<forall>s \<in> set ds. length s = 2 ^ num_qubits fm" by auto
  from encode_points_ok [of centers fm] Suc.prems(4) assms(5) obtain cs where
    cs: "encode_points (Some fm) centers = Inr cs" "length cs = length centers"
      "\<forall>s \<in> set cs. length s = 2 ^ num_qubits fm" by auto
  from cs(2) Suc.prems(3) assms(4) have "cs \<noteq> []" by auto
  from assign_labels_ok [OF ds(3) cs(3) this] obtain ls where
    ls: "assign_labels ds cs = Inr ls" "length ls = length ds" "\<forall>l \<in> set ls. l < length cs"
    by auto
  have ls_k: "\<forall>l \<in> set ls. int l < n_clusters"
    using ls(3) cs(2) Suc.prems(3) by auto
  from update_centers_shape [OF assms(1,2,3), of dt ls "[0..<nat n_clusters]" g] obtain nc g' where
    nc: "update_centers R dt X ls [0..<nat n_clusters] g = Inr (nc, g')"
      "length nc = nat n_clusters" "\<forall>c \<in> set nc. length c = d" by auto
  have nc_k: "int (length nc) = n_clusters"
    using nc(2) assms(4) by simp
  show ?case
  proof (cases "allclose nc centers")
    case True
    then show ?thesis
      using ds cs ls nc ls_k nc_k by simp
  next
    case False
    from Suc.IH [of ls nc g'] ls(2) ds(2) ls_k nc_k nc(3) obtain labels' centers' where
      "kmeans_loop R dt (Some fm) X n_clusters m ls nc g' = Inr (labels', centers')"
      "length labels' = length X" "\<forall>l \<in> set labels'. int l < n_clusters"
      "int (length centers') = n_clusters" "\<forall>c \<in> set centers'. length c = d"
      by auto
    then show ?thesis
      using False ds cs ls nc by simp
  qed
qed

text \<open>
  Claim C1: for a non-empty dataset of points of dimension \<open>d\<close>, a cluster count between 1
  and the number of points, and a feature map with at most \<open>d\<close> free parameters (every
  circuit over the gates above, hence both kinds), \<open>quantum_kmeans\<close> returns, for every
  iteration budget: one label per point, each in \<open>[0, k)\<close>, and \<open>k\<close> centers of
  dimension \<open>d\<close>.
\<close>

theorem quantum_kmeans_shapes:
  assumes "generator_contract R" and "0 \<le> random_state"
    and "X \<noteq> []" and "\<forall>x \<in> set X. length x = d"
    and "0 < n_clusters" and "n_clusters \<le> int (length X)"
    and "length (parameters fm) \<le> d"
  shows "\<exists>labels centers.
           quantum_kmeans R dt X n_clusters max_iters (Some fm) random_state = Inr (labels, centers)
           \<and> length labels = length X
           \<and> (\<forall>l \<in> set labels. 0 \<le> int l \<and> int l < n_clusters)
           \<and> int (length centers) = n_clusters
           \<and> (\<forall>c \<in> set centers. length c = d)"
proof -
  let ?g = "seeded R random_state"
  let ?idx = "fst (sample R ?g (length X) (nat n_clusters))"
  let ?g1 = "snd (sample R ?g (length X) (nat n_clusters))"
  let ?c0 = "map (\<lambda>i. X ! i) ?idx"
  have kn: "nat n_clusters \<le> length X"
    using assms(6) by linarith
  from assms(1) kn
  have c: "length ?idx = nat n_clusters" "\<forall>i \<in> set ?idx. i < length X"
    unfolding generator_contract_def by blast+
  have init: "initialize_centers R X n_clusters ?g = Inr (?c0, ?g1)"
    using assms(1,5,6) by (intro initialize_centers_ok) simp_all
  have l0: "length (replicate (length X) (0::nat)) = length X"
    "\<forall>l \<in> set (replicate (length X) (0::nat)). int l < n_clusters"
    using assms(5) by simp_all
  have c0: "int (length ?c0) = n_clusters" "\<forall>c \<in> set ?c0. length c = d"
    using c assms(4,5) by auto
  from kmeans_loop_ok [OF assms(1,3,4,5,7) l0 c0, of dt "nat max_iters" ?g1]
  show ?thesis
    using init assms(2) by (auto simp: quantum_kmeans_def default_rng_def)
qed

theorem quantum_kmeans_shapes_witness:
  "(\<exists>labels centers.
      quantum_kmeans counter_generator Float64 [[0, 0], [1, 2], [3, 4]] 2 3
        (Some (build_angle_encoding_map 2)) 0 = Inr (labels, centers)
      \<and> length labels = 3 \<and> (\<forall>l \<in> set labels. 0 \<le> int l \<and> int l < 2)
      \<and> int (length centers) = 2 \<and> (\<forall>c \<in> set centers. length c = 2))
   \<and> (\<exists>labels centers.
      quantum_kmeans counter_generator Float64 [[0, 0], [1, 2], [3, 4]] 2 3
        (Some (build_zz_feature_map 2 2)) 0 = Inr (labels, centers)
      \<and> length labels = 3 \<and> (\<forall>l \<in> set labels. 0 \<le> int l \<and> int l < 2)
      \<and> int (length centers) = 2 \<and> (\<forall>c \<in> set centers. length c = 2))"
proof -
  have h: "(0::int) \<le> 0" "[[0, 0], [1, 2], [3, 4::real]] \<noteq> []"
    "\<forall>x \<in> set [[0, 0], [1, 2], [3, 4::real]]. length x = 2"
    "(0::int) < 2" "(2::int) \<le> int (length [[0, 0], [1, 2], [3, 4::real]])"
    by simp_all
  have a: "length (parameters (build_angle_encoding_map 2)) \<le> 2"
    by (simp add: parameters_angle2)
  have z: "length (parameters (build_zz_feature_map 2 2)) \<le> 2"
    by (simp add: parameters_zz2)
  from quantum_kmeans_shapes [OF counter_generator_contract h a, of Float64 3]
    quantum_kmeans_shapes [OF counter_generator_contract h z, of Float64 3]
  show ?thesis by (simp add: numeral_3_eq_3)
qed

subsection \<open>The stored mean\<close>

text \<open>With a single cluster every point gets the label 0, whatever the distances are.\<close>

lemma assign_labels_single:
  assumes "\<forall>s \<in> set data_states. length s = length c"
  shows "assign_labels data_states [c] = Inr (replicate (length data_states) 0)"
  using assms
proof (induction data_states)
  case Nil
  then show ?case by (simp add: assign_labels_def)
next
  case (Cons s ss)
  from Cons.prems obtain v where v: "quantum_distance s c = Inr v"
    using quantum_distance_ok [of s c] by auto
  have "argmin [v] = Inr 0"
    by (simp add: argmin_def)
  with v Cons show ?case
    by (simp add: assign_labels_def)
qed

lemma one_cluster_step:
  assumes "length (parameters fm) \<le> 2" and "length c = 2"
  shows "kmeans_loop R dt (Some fm) [[0, 0], [1, 2]] 1 (Suc m) labels [c] g =
           (if allclose [map (astype dt) [1 / 2, 1]] [c]
            then Inr ([0, 0], [map (astype dt) [1 / 2, 1]])
            else kmeans_loop R dt (Some fm) [[0, 0], [1, 2]] 1 m [0, 0]
                   [map (astype dt) [1 / 2, 1]] g)"
proof -
  let ?X = "[[0, 0], [1, 2 :: real]]"
  have "\<forall>x \<in> set ?X. length (parameters fm) \<le> length x"
    using assms(1) by simp
  from encode_points_ok [OF this] obtain ds where
    ds: "encode_points (Some fm) ?X = Inr ds" "length ds = 2"
      "\<forall>s \<in> set ds. length s = 2 ^ num_qubits fm" by auto
  have "\<forall>x \<in> set [c]. length (parameters fm) \<le> length x"
    using assms by simp
  from encode_points_ok [OF this] obtain cs where
    cs: "encode_points (Some fm) [c] = Inr cs" "length cs = 1"
      "\<forall>s \<in> set cs. length s = 2 ^ num_qubits fm" by auto
  from cs(2) obtain c0 where c0: "cs = [c0]"
    by (cases cs) auto
  with cs(3) ds(3) have "\<forall>s \<in> set ds. length s = length c0"
    by simp
  from assign_labels_single [OF this] ds(2) have ls: "assign_labels ds cs = Inr [0, 0]"
    by (simp add: c0 numeral_2_eq_2)
  have pts: "cluster_points ?X [0, 0] 0 = ?X"
    by (simp add: cluster_points_def)
  have mean: "mean_axis0 ?X = [1 / 2, 1]"
    by (simp add: mean_axis0_def numeral_2_eq_2)
  have up: "update_centers R dt ?X [0, 0] [0..<nat 1] g = Inr ([map (astype dt) [1 / 2, 1]], g)"
    by (simp add: pts mean)
  show ?thesis
    by (simp only: kmeans_loop.simps ds(1) cs(1) ls up sum.case prod.case)
qed

lemma astype_int_half: "map (astype Int64) [1 / 2, 1] = [0, 1]"
  by (simp add: astype_def)

lemma astype_float_half: "map (astype Float64) [1 / 2, 1] = [1 / 2, 1]"
  by (simp add: astype_def)

lemma close_refl: "allclose [[a, b]] [[a, b]]"
  by (simp add: allclose_def isclose_def)

text \<open>
  With one cluster the run on the rows \<open>[0, 0]\<close> and \<open>[1, 2]\<close> does not depend on the
  generator: whichever row is the initial center, the first update stores the mean of both
  rows, converted to the element type of \<open>X\<close>.
\<close>

lemma one_cluster_loop:
  assumes "length (parameters fm) \<le> 2" and "length c = 2"
  shows "kmeans_loop R dt (Some fm) [[0, 0], [1, 2]] 1 (Suc m) labels [c] g
           = Inr ([0, 0], [map (astype dt) [1 / 2, 1]])"
proof (cases "allclose [map (astype dt) [1 / 2, 1]] [c]")
  case True
  then show ?thesis
    by (simp only: one_cluster_step [OF assms] if_True)
next
  case False
  have l: "length (map (astype dt) [1 / 2, 1]) = 2"
    by simp
  have r: "allclose [map (astype dt) [1 / 2, 1]] [map (astype dt) [1 / 2, 1]]"
    by (simp add: close_refl)
  have step: "kmeans_loop R dt (Some fm) [[0, 0], [1, 2]] 1 (Suc m) labels [c] g
           = kmeans_loop R dt (Some fm) [[0, 0], [1, 2]] 1 m [0, 0]
               [map (astype dt) [1 / 2, 1]] g"
    using False by (simp only: one_cluster_step [OF assms] if_False)
  have rest: "kmeans_loop R dt (Some fm) [[0, 0], [1, 2]] 1 m [0, 0]
               [map (astype dt) [1 / 2, 1]] g = Inr ([0, 0], [map (astype dt) [1 / 2, 1]])"
  proof (cases m)
    case 0
    then show ?thesis by simp
  next
    case (Suc m')
    show ?thesis
      unfolding Suc using r
      by (simp only: one_cluster_step [OF assms(1) l] if_True)
  qed
  show ?thesis
    by (rule trans [OF step rest])
qed

lemma one_cluster_run:
  assumes "generator_contract R" and "0 \<le> random_state" and "0 < max_iters"
    and "length (parameters fm) \<le> 2"
  shows "quantum_kmeans R dt [[0, 0], [1, 2]] 1 max_iters (Some fm) random_state
           = Inr ([0, 0], [map (astype dt) [1 / 2, 1]])"
proof -
  let ?X = "[[0, 0], [1, 2 :: real]]"
  let ?g = "seeded R random_state"
  let ?idx = "fst (sample R ?g (length ?X) (nat 1))"
  have "nat 1 \<le> length ?X" by simp
  with assms(1) have idx: "length ?idx = nat 1" "\<forall>i \<in> set ?idx. i < length ?X"
    unfolding generator_contract_def by blast+
  then obtain i where i: "?idx = [i]" "i < 2"
    by (cases ?idx) auto
  then have c: "length (?X ! i) = 2"
    by (cases i) (auto simp: less_Suc_eq numeral_2_eq_2)
  have init: "initialize_centers R ?X 1 ?g = Inr ([?X ! i], snd (sample R ?g (length ?X) (nat 1)))"
    using initialize_centers_ok [OF assms(1), of 1 ?X ?g] i(1) by simp
  from assms(3) obtain m where m: "nat max_iters = Suc m"
    by (cases "nat max_iters") auto
  show ?thesis
    unfolding quantum_kmeans_def
    using assms(2) init m one_cluster_loop [OF assms(4) c]
    by (simp add: default_rng_def)
qed

text \<open>One update step on an integer array of three rows, with two clusters.\<close>

lemma update_centers_integer_rows:
  "update_centers counter_generator Int64 [[0, 0], [1, 2], [4, 4]] [0, 0, 1] [0..<2] 0
     = Inr ([[0, 1], [4, 4]], 0)"
  by (simp add: cluster_points_def mean_axis0_def astype_def numeral_2_eq_2 upt_rec)

text \<open>
  Claim C6 does not hold of the code on an integer array.  The comment of the update step
  says that centers move to the mean of the assigned points, but \<open>new_centers\<close> has the
  element type of \<open>X\<close>: for the integer array \<open>[[0, 0], [1, 2]]\<close> and one cluster, both
  points are assigned to it, their mean is \<open>[0.5, 1]\<close>, and the run returns the center
  \<open>[0, 1]\<close>.  The same rows as a float array give the center \<open>[0.5, 1]\<close>.
\<close>

theorem quantum_kmeans_integer_mean_truncated:
  "quantum_kmeans counter_generator Int64 [[0, 0], [1, 2]] 1 10
       (Some (build_angle_encoding_map 2)) 0 = Inr ([0, 0], [[0, 1]])
   \<and> cluster_points [[0, 0], [1, 2]] [0, 0] 0 = [[0, 0], [1, 2]]
   \<and> mean_axis0 [[0, 0], [1, 2]] = [1 / 2, 1]
   \<and> quantum_kmeans counter_generator Float64 [[0, 0], [1, 2]] 1 10
       (Some (build_angle_encoding_map 2)) 0 = Inr ([0, 0], [[1 / 2, 1]])"
proof -
  have p: "length (parameters (build_angle_encoding_map 2)) \<le> 2"
    by (simp add: parameters_angle2)
  have h: "(0::int) \<le> 0" "(0::int) < 10"
    by simp_all
  have "cluster_points [[0, 0], [1, 2 :: real]] [0, 0] 0 = [[0, 0], [1, 2]]"
    by (simp add: cluster_points_def)
  moreover have "mean_axis0 [[0, 0], [1, 2]] = [1 / 2, 1]"
    by (simp add: mean_axis0_def numeral_2_eq_2)
  ultimately show ?thesis
    using one_cluster_run [OF counter_generator_contract h p, of Int64]
      one_cluster_run [OF counter_generator_contract h p, of Float64]
    by (simp only: astype_int_half astype_float_half simp_thms)
qed

subsection \<open>The random source\<close>

lemma update_centers_agree:
  assumes "\<forall>h \<in> advanced R g0. \<forall>n k. sample R' h n k = sample R h n k \<and> draw R' h n = draw R h n"
  shows "g \<in> advanced R g0 \<Longrightarrow>
         update_centers R' dt X labels js g = update_centers R dt X labels js g
         \<and> (\<forall>cs g'. update_centers R dt X labels js g = Inr (cs, g') \<longrightarrow> g' \<in> advanced R g0)"
proof (induction js arbitrary: g)
  case Nil
  then show ?case by simp
next
  case (Cons j js)
  have d: "draw R' g (length X) = draw R g (length X)"
    using assms Cons.prems by blast
  have "snd (draw R g (length X)) \<in> advanced R g0"
    using Cons.prems by (rule advanced.after_draw)
  from Cons.IH [OF this] Cons.IH [OF Cons.prems] show ?case
    by (auto simp: rng_integers_def d split: sum.splits prod.splits)
qed

lemma kmeans_loop_agree:
  assumes "\<forall>h \<in> advanced R g0. \<forall>n k. sample R' h n k = sample R h n k \<and> draw R' h n = draw R h n"
  shows "g \<in> advanced R g0 \<Longrightarrow>
         kmeans_loop R' dt fm X n_clusters m labels centers g
           = kmeans_loop R dt fm X n_clusters m labels centers g"
proof (induction m arbitrary: labels centers g)
  case 0
  then show ?case by simp
next
  case (Suc m)
  show ?case
    using update_centers_agree [OF assms Suc.prems] Suc.IH
    by (auto split: sum.splits prod.splits)
qed

text \<open>
  Claim C3: the result of \<open>quantum_kmeans\<close> is determined by its arguments and by the draws
  of the generator seeded with \<open>random_state\<close>.  Two runs with the same inputs and the same
  seed return the same labels and centers (or raise the same error) as soon as their
  generators start in the same seeded state and draw the same values in every state
  reachable from it; whatever else the generators do is never consulted.
\<close>

theorem quantum_kmeans_seeded_stream:
  assumes "seeded R' random_state = seeded R random_state"
    and "\<forall>h \<in> advanced R (seeded R random_state).
           \<forall>n k. sample R' h n k = sample R h n k \<and> draw R' h n = draw R h n"
  shows "quantum_kmeans R' dt X n_clusters max_iters fm random_state
           = quantum_kmeans R dt X n_clusters max_iters fm random_state"
proof -
  let ?g = "seeded R random_state"
  have s: "sample R' ?g (length X) (nat n_clusters) = sample R ?g (length X) (nat n_clusters)"
    using assms(2) advanced.start [of ?g R] by blast
  have "snd (sample R ?g (length X) (nat n_clusters)) \<in> advanced R ?g"
    by (intro advanced.after_sample advanced.start)
  from kmeans_loop_agree [OF assms(2) this] show ?thesis
    by (auto simp: quantum_kmeans_def default_rng_def initialize_centers_def rng_choice_def
        assms(1) s split: sum.splits prod.splits)
qed

theorem quantum_kmeans_seeded_stream_witness:
  "quantum_kmeans (counter_generator\<lparr>seeded := (\<lambda>s. if s = 0 then 0 else 42)\<rparr>)
       Float64 [[0, 0], [1, 2], [3, 4]] 2 3 (Some (build_angle_encoding_map 2)) 0
     = quantum_kmeans counter_generator
       Float64 [[0, 0], [1, 2], [3, 4]] 2 3 (Some (build_angle_encoding_map 2)) 0"
  by (rule quantum_kmeans_seeded_stream) (simp_all add: counter_generator_def)

end
